theory Spec2Isabelle
  imports Main
begin

section \<open>Values, errors and dictionaries\<close>

text \<open>
  The program (\<^verbatim>\<open>versioning.py\<close>) works on the structure that \<^verbatim>\<open>json.load\<close> returns.
  A JSON value is a Python object; a JSON object is a \<^verbatim>\<open>dict\<close> with string keys,
  kept here in insertion order as the list of its items.
\<close>

datatype json =
    JNull
  | JBool bool
  | JNum int
  | JStr string
  | JArr "json list"
  | JObj "(string \<times> json) list"

text \<open>
  The exceptions that the modelled code can raise: \<^verbatim>\<open>KeyError\<close> from a subscript
  \<^verbatim>\<open>d[k]\<close> with a missing key, \<^verbatim>\<open>IndexError\<close> from the explicit \<^verbatim>\<open>raise\<close> of
  \<^verbatim>\<open>resolve_ref\<close>, \<^verbatim>\<open>TypeError\<close> from iterating a value that is not iterable or from
  using an unhashable value as a key.
\<close>

datatype py_error = KeyError | IndexError | TypeError

text \<open>
  A \<^verbatim>\<open>dict\<close> with string keys is the list of its items, in insertion order; the keys of a
  dictionary are distinct.
\<close>

type_synonym 'v dict = "(string \<times> 'v) list"

text \<open>\<^verbatim>\<open>k in d\<close>\<close>

definition dict_contains :: "'v dict \<Rightarrow> string \<Rightarrow> bool" where
  "dict_contains d k = (k \<in> set (map fst d))"

text \<open>\<^verbatim>\<open>d[k]\<close>, which raises \<^verbatim>\<open>KeyError\<close> when the key is missing.\<close>

definition dict_get :: "'v dict \<Rightarrow> string \<Rightarrow> py_error + 'v" where
  "dict_get d k = (case map_of d k of None \<Rightarrow> Inl KeyError | Some v \<Rightarrow> Inr v)"

text \<open>
  \<^verbatim>\<open>d[k] = v\<close>: the value of an existing key is replaced where it stands, a new key is
  appended.
\<close>

fun dict_set :: "'v dict \<Rightarrow> string \<Rightarrow> 'v \<Rightarrow> 'v dict" where
  "dict_set [] k v = [(k, v)]"
| "dict_set ((k', v') # d) k v =
     (if k' = k then (k, v) # d else (k', v') # dict_set d k v)"

text \<open>
  \<^verbatim>\<open>for v in x\<close> on a JSON value: a list yields its elements, a dict its keys, a string
  its characters (each a string of length one); \<^verbatim>\<open>None\<close>, booleans and numbers are not
  iterable.
\<close>

fun iter_json :: "json \<Rightarrow> py_error + json list" where
  "iter_json (JArr xs) = Inr xs"
| "iter_json (JObj kvs) = Inr (map (\<lambda>kv. JStr (fst kv)) kvs)"
| "iter_json (JStr s) = Inr (map (\<lambda>c. JStr [c]) s)"
| "iter_json JNull = Inl TypeError"
| "iter_json (JBool b) = Inl TypeError"
| "iter_json (JNum n) = Inl TypeError"

section \<open>The store of version data\<close>

text \<open>
  Every \<^verbatim>\<open>Version\<close> object keeps a reference \<^verbatim>\<open>_json\<close> to the dictionary of its data
  inside the document, and the setter of \<^verbatim>\<open>message\<close> writes through that reference.
  These dictionaries are the only objects the modelled code mutates, so they live in a
  store: an address stands for the dictionary object, the store gives its present
  contents.
\<close>

type_synonym addr = nat

type_synonym store = "addr \<Rightarrow> json dict"

section \<open>Versioning\<close>

text \<open>
  \<^verbatim>\<open>Versioning._json\<close>, the \<^verbatim>\<open>"versioning"\<close> member of the document: the three
  dictionaries \<^verbatim>\<open>"versions"\<close> (name to version data), \<^verbatim>\<open>"branches"\<close> and \<^verbatim>\<open>"tags"\<close>
  (name to version name). A \<^verbatim>\<open>Versioning\<close> object is this structure; its other
  attribute, \<^verbatim>\<open>_citymodel\<close>, is read by none of its methods.
\<close>

record Versioning =
  versions_json :: "addr dict"
  branches_json :: "string dict"
  tags_json :: "string dict"

text \<open>
  A \<^verbatim>\<open>Version\<close> object: \<^verbatim>\<open>_versioning\<close>, \<^verbatim>\<open>_json\<close> (the reference to its data)
  and \<^verbatim>\<open>_version_name\<close>.
\<close>

record Version =
  versioning :: Versioning
  vjson :: addr
  version_name :: string

text \<open>
  \<^verbatim>\<open>Version.__init__\<close>. Without a name the name is \<^verbatim>\<open>utils.get_hash_of_object(data)\<close>;
  \<^verbatim>\<open>utils\<close> is not part of the sources at hand, so the hash function is the parameter
  \<open>get_hash_of_object\<close>. The name is computed once, here, and stored.
\<close>

definition Version_init ::
    "(json dict \<Rightarrow> string) \<Rightarrow> store \<Rightarrow> Versioning \<Rightarrow> addr \<Rightarrow> string option \<Rightarrow> Version" where
  "Version_init get_hash_of_object h vg data nm =
     (case nm of
        None \<Rightarrow> \<lparr>versioning = vg, vjson = data, version_name = get_hash_of_object (h data)\<rparr>
      | Some k \<Rightarrow> \<lparr>versioning = vg, vjson = data, version_name = k\<rparr>)"

text \<open>
  The property \<^verbatim>\<open>Versioning.versions\<close>: the dict comprehension
  \<^verbatim>\<open>{k : Version(self, j, k) for k, j in self._json["versions"].items()}\<close>,
  which stores one item after the other.
\<close>

definition versions :: "Versioning \<Rightarrow> Version dict" where
  "versions vg =
     foldl (\<lambda>d (k, j). dict_set d k \<lparr>versioning = vg, vjson = j, version_name = k\<rparr>)
       [] (versions_json vg)"

text \<open>\<^verbatim>\<open>Versioning.resolve_ref\<close>\<close>

definition resolve_ref :: "Versioning \<Rightarrow> string \<Rightarrow> py_error + string" where
  "resolve_ref vg ref =
     (if dict_contains (versions vg) ref then Inr ref
      else if dict_contains (branches_json vg) ref then dict_get (branches_json vg) ref
      else if dict_contains (tags_json vg) ref then dict_get (tags_json vg) ref
      else Inl IndexError)"

text \<open>\<^verbatim>\<open>Versioning.get_version_from_ref\<close>: \<^verbatim>\<open>self.versions[self.resolve_ref(ref)]\<close>\<close>

definition get_version_from_ref :: "Versioning \<Rightarrow> string \<Rightarrow> py_error + Version" where
  "get_version_from_ref vg ref =
     (case resolve_ref vg ref of
        Inl e \<Rightarrow> Inl e
      | Inr n \<Rightarrow> dict_get (versions vg) n)"

text \<open>
  The dict comprehension \<^verbatim>\<open>{k : self.versions[j] for k, j in items}\<close> shared by the
  properties \<^verbatim>\<open>branches\<close> and \<^verbatim>\<open>tags\<close>: it stops at the first subscript that raises.
\<close>

fun deref_items :: "Version dict \<Rightarrow> string dict \<Rightarrow> Version dict \<Rightarrow> py_error + Version dict" where
  "deref_items vs [] acc = Inr acc"
| "deref_items vs ((k, j) # kjs) acc =
     (case dict_get vs j of
        Inl e \<Rightarrow> Inl e
      | Inr v \<Rightarrow> deref_items vs kjs (dict_set acc k v))"

text \<open>The properties \<^verbatim>\<open>Versioning.branches\<close> and \<^verbatim>\<open>Versioning.tags\<close>\<close>

definition branches :: "Versioning \<Rightarrow> py_error + Version dict" where
  "branches vg = deref_items (versions vg) (branches_json vg) []"

definition tags :: "Versioning \<Rightarrow> py_error + Version dict" where
  "tags vg = deref_items (versions vg) (tags_json vg) []"

section \<open>Version\<close>

text \<open>The properties \<^verbatim>\<open>name\<close>, \<^verbatim>\<open>author\<close>, \<^verbatim>\<open>message\<close> and \<^verbatim>\<open>date\<close>\<close>

definition name :: "Version \<Rightarrow> string" where
  "name ver = version_name ver"

definition author :: "store \<Rightarrow> Version \<Rightarrow> py_error + json" where
  "author h ver = dict_get (h (vjson ver)) ''author''"

definition message :: "store \<Rightarrow> Version \<Rightarrow> py_error + json" where
  "message h ver = dict_get (h (vjson ver)) ''message''"

definition date :: "store \<Rightarrow> Version \<Rightarrow> py_error + json" where
  "date h ver = dict_get (h (vjson ver)) ''date''"

text \<open>
  The setter of \<^verbatim>\<open>message\<close>: \<^verbatim>\<open>self._json["message"] = value\<close>. The state a method
  can change is the store and the attributes of \<^verbatim>\<open>self\<close>; the setter returns both as
  they are after the assignment. It writes into the dictionary that \<^verbatim>\<open>_json\<close> refers to
  and assigns no attribute of the \<^verbatim>\<open>Version\<close> object.
\<close>

definition message_setter :: "store \<Rightarrow> Version \<Rightarrow> json \<Rightarrow> store \<times> Version" where
  "message_setter h ver v = (h(vjson ver := dict_set (h (vjson ver)) ''message'' v), ver)"

text \<open>\<^verbatim>\<open>Version.has_parents\<close>: \<^verbatim>\<open>"parents" in self._json\<close>\<close>

definition has_parents :: "store \<Rightarrow> Version \<Rightarrow> bool" where
  "has_parents h ver = dict_contains (h (vjson ver)) ''parents''"

text \<open>
  The subscript \<^verbatim>\<open>self._versioning.versions[v]\<close> for an element \<open>v\<close> of the stored
  parents: a string is looked up; a list or a dict is unhashable (\<^verbatim>\<open>TypeError\<close>);
  \<^verbatim>\<open>None\<close>, a boolean or a number is hashable and equal to no key (\<^verbatim>\<open>KeyError\<close>).
\<close>

fun versions_subscript :: "Version dict \<Rightarrow> json \<Rightarrow> py_error + Version" where
  "versions_subscript vs (JStr s) = dict_get vs s"
| "versions_subscript vs (JArr xs) = Inl TypeError"
| "versions_subscript vs (JObj kvs) = Inl TypeError"
| "versions_subscript vs JNull = Inl KeyError"
| "versions_subscript vs (JBool b) = Inl KeyError"
| "versions_subscript vs (JNum n) = Inl KeyError"

text \<open>
  The list comprehension \<^verbatim>\<open>[self._versioning.versions[v] for v in ...]\<close>, which stops
  at the first subscript that raises.
\<close>

fun parents_loop :: "Version dict \<Rightarrow> json list \<Rightarrow> py_error + Version list" where
  "parents_loop vs [] = Inr []"
| "parents_loop vs (v # rest) =
     (case versions_subscript vs v of
        Inl e \<Rightarrow> Inl e
      | Inr p \<Rightarrow> (case parents_loop vs rest of
                   Inl e \<Rightarrow> Inl e
                 | Inr ps \<Rightarrow> Inr (p # ps)))"

text \<open>The property \<^verbatim>\<open>Version.parents\<close>\<close>

definition parents :: "store \<Rightarrow> Version \<Rightarrow> py_error + Version list" where
  "parents h ver =
     (if has_parents h ver then
        (case dict_get (h (vjson ver)) ''parents'' of
           Inl e \<Rightarrow> Inl e
         | Inr x \<Rightarrow> (case iter_json x of
                      Inl e \<Rightarrow> Inl e
                    | Inr vs \<Rightarrow> parents_loop (versions (versioning ver)) vs))
      else Inr [])"

text \<open>
  The properties \<^verbatim>\<open>Version.branches\<close> and \<^verbatim>\<open>Version.tags\<close>: the names of the items of
  \<^verbatim>\<open>self._versioning.branches\<close> (\<^verbatim>\<open>tags\<close>) whose version has this version's name.
\<close>

definition version_branches :: "Version \<Rightarrow> py_error + string list" where
  "version_branches ver =
     (case branches (versioning ver) of
        Inl e \<Rightarrow> Inl e
      | Inr bs \<Rightarrow> Inr (map fst (filter (\<lambda>(branch_name, version). name version = version_name ver) bs)))"

definition version_tags :: "Version \<Rightarrow> py_error + string list" where
  "version_tags ver =
     (case tags (versioning ver) of
        Inl e \<Rightarrow> Inl e
      | Inr ts \<Rightarrow> Inr (map fst (filter (\<lambda>(tag_name, version). name version = version_name ver) ts)))"

section \<open>Example documents\<close>

text \<open>
  \<open>example_doc\<close>: versions \<^verbatim>\<open>A\<close> (a root that stores an empty list of parents),
  \<^verbatim>\<open>B\<close> (parent \<^verbatim>\<open>A\<close>) and \<^verbatim>\<open>R\<close> (a root whose data has no \<^verbatim>\<open>"parents"\<close>
  member), the branch \<^verbatim>\<open>main\<close> at \<^verbatim>\<open>B\<close> and the tag \<^verbatim>\<open>v1\<close> at \<^verbatim>\<open>A\<close>;
  \<open>example_store\<close> holds the data of the three versions.
  \<open>ghost_doc\<close>: the branch \<^verbatim>\<open>ghost\<close> points at \<^verbatim>\<open>Z\<close>, which is no version.
  \<open>shadow_doc\<close>: \<^verbatim>\<open>A\<close> is a version name and a branch name, \<^verbatim>\<open>B\<close> a version
  name and a tag name; every branch and tag points at a version.
  \<open>alias_doc\<close> with \<open>alias_store\<close>: version \<^verbatim>\<open>C\<close> stores the parent \<^verbatim>\<open>main\<close>, which
  is a branch name and no version name; the tag \<^verbatim>\<open>old\<close> points at \<^verbatim>\<open>Z\<close>, which is no
  version.
\<close>

definition example_doc :: Versioning where
  "example_doc =
     \<lparr>versions_json = [(''A'', 0), (''B'', 1), (''R'', 2)],
      branches_json = [(''main'', ''B'')],
      tags_json = [(''v1'', ''A'')]\<rparr>"

definition example_store :: store where
  "example_store =
     (\<lambda>a. [])
       (0 := [(''author'', JStr ''ann''), (''message'', JStr ''root''),
              (''date'', JStr ''2020-01-01''), (''parents'', JArr []), (''objects'', JObj [])],
        1 := [(''author'', JStr ''bob''), (''message'', JStr ''second''),
              (''date'', JStr ''2020-02-01''), (''parents'', JArr [JStr ''A'']),
              (''objects'', JObj [])],
        2 := [(''author'', JStr ''ann''), (''message'', JStr ''other root''),
              (''date'', JStr ''2020-03-01''), (''objects'', JObj [])])"

definition ghost_doc :: Versioning where
  "ghost_doc =
     \<lparr>versions_json = [(''A'', 0)],
      branches_json = [(''ghost'', ''Z'')],
      tags_json = []\<rparr>"

definition shadow_doc :: Versioning where
  "shadow_doc =
     \<lparr>versions_json = [(''A'', 0), (''B'', 1)],
      branches_json = [(''A'', ''B'')],
      tags_json = [(''B'', ''A'')]\<rparr>"

definition alias_doc :: Versioning where
  "alias_doc =
     \<lparr>versions_json = [(''A'', 0), (''C'', 3)],
      branches_json = [(''main'', ''A'')],
      tags_json = [(''old'', ''Z'')]\<rparr>"

definition alias_store :: store where
  "alias_store =
     example_store
       (3 := [(''author'', JStr ''cy''), (''message'', JStr ''third''),
              (''date'', JStr ''2020-04-01''), (''parents'', JArr [JStr ''main'']),
              (''objects'', JObj [])])"

section \<open>Dictionaries: basic facts\<close>

lemma dict_contains_map_of: "dict_contains d k \<longleftrightarrow> map_of d k \<noteq> None"
  by (simp add: dict_contains_def map_of_eq_None_iff)

lemma dict_get_KeyError_iff: "dict_get d k = Inl e \<longleftrightarrow> e = KeyError \<and> \<not> dict_contains d k"
  by (auto simp: dict_get_def dict_contains_map_of split: option.splits)

lemma dict_get_Inr_iff: "dict_get d k = Inr v \<longleftrightarrow> map_of d k = Some v"
  by (simp add: dict_get_def split: option.splits)

lemma dict_contains_ex_get: "dict_contains d k \<longleftrightarrow> (\<exists>v. dict_get d k = Inr v)"
  by (auto simp: dict_get_Inr_iff dict_contains_map_of)

lemma map_of_dict_set: "map_of (dict_set d k v) = (map_of d)(k \<mapsto> v)"
  by (induction d k v rule: dict_set.induct) auto

lemma dict_contains_dict_set:
  "dict_contains (dict_set d k v) k' \<longleftrightarrow> k' = k \<or> dict_contains d k'"
  by (simp add: dict_contains_map_of map_of_dict_set)

lemma dict_get_dict_set:
  "dict_get (dict_set d k v) k' = (if k' = k then Inr v else dict_get d k')"
  by (simp add: dict_get_def map_of_dict_set)

section \<open>The versions dictionary\<close>

text \<open>
  The dictionary that the property \<^verbatim>\<open>versions\<close> builds has the keys of the stored
  \<^verbatim>\<open>"versions"\<close> dictionary, and the \<^verbatim>\<open>Version\<close> under a key carries that key as its
  name and refers to data stored under that key.
\<close>

lemma versions_fold_contains:
  "dict_contains (foldl (\<lambda>d (k, j). dict_set d k \<lparr>versioning = vg, vjson = j, version_name = k\<rparr>) acc kjs) n
     \<longleftrightarrow> dict_contains acc n \<or> dict_contains kjs n"
proof (induction kjs arbitrary: acc)
  case Nil
  show ?case by (simp add: dict_contains_def)
next
  case (Cons kj kjs)
  obtain k j where kj: "kj = (k, j)" by (cases kj)
  show ?case
    unfolding kj using Cons.IH [of "dict_set acc k \<lparr>versioning = vg, vjson = j, version_name = k\<rparr>"]
    by (auto simp: dict_contains_dict_set) (auto simp: dict_contains_def)
qed

lemma versions_fold_get:
  "dict_get (foldl (\<lambda>d (k, j). dict_set d k \<lparr>versioning = vg, vjson = j, version_name = k\<rparr>) acc kjs) n = Inr v
     \<Longrightarrow> dict_get acc n = Inr v
         \<or> (versioning v = vg \<and> version_name v = n \<and> (n, vjson v) \<in> set kjs)"
proof (induction kjs arbitrary: acc)
  case Nil
  then show ?case by simp
next
  case (Cons kj kjs)
  obtain k j where kj: "kj = (k, j)" by (cases kj)
  from Cons.prems Cons.IH [of "dict_set acc k \<lparr>versioning = vg, vjson = j, version_name = k\<rparr>"]
  show ?case
    unfolding kj by (auto simp: dict_get_dict_set split: if_splits)
qed

lemma versions_contains: "dict_contains (versions vg) n \<longleftrightarrow> dict_contains (versions_json vg) n"
  by (simp add: versions_def versions_fold_contains) (simp add: dict_contains_def)

lemma versions_get:
  assumes "dict_get (versions vg) n = Inr v"
  shows "versioning v = vg \<and> version_name v = n \<and> (n, vjson v) \<in> set (versions_json vg)"
  using versions_fold_get [of vg "[]" "versions_json vg" n v] assms
  by (simp add: versions_def dict_get_def)

section \<open>Reference resolution\<close>

text \<open>
  The spec names the failure of a reference that exists in no namespace
  \<^verbatim>\<open>UnresolvedReferenceError\<close> and the failure of a lookup of a version name that is
  absent from \<^verbatim>\<open>versions\<close> \<^verbatim>\<open>DanglingReferenceError\<close>. In the program the first is
  the \<^verbatim>\<open>IndexError\<close> that \<^verbatim>\<open>resolve_ref\<close> raises, the second the \<^verbatim>\<open>KeyError\<close> of the
  subscript \<^verbatim>\<open>self.versions[...]\<close>. \<^verbatim>\<open>resolve_ref\<close> raises nothing but \<^verbatim>\<open>IndexError\<close>.
\<close>

lemma resolve_ref_error: "resolve_ref vg ref = Inl e \<Longrightarrow> e = IndexError"
  by (auto simp: resolve_ref_def dict_get_KeyError_iff split: if_splits)

text \<open>
  Claim C1. \<^verbatim>\<open>resolve_ref\<close> resolves with the precedence versions, branches, tags: a
  key of the stored versions is returned unchanged; a reference that is no version name
  and is a branch name resolves to the branch's target; a reference that is neither a
  version name nor a branch name and is a tag name resolves to the tag's target. In
  particular a string that is a version name and a branch name resolves to itself.
\<close>

theorem resolve_ref_precedence:
  "(dict_contains (versions_json vg) ref \<longrightarrow> resolve_ref vg ref = Inr ref) \<and>
   (\<not> dict_contains (versions_json vg) ref \<and> dict_get (branches_json vg) ref = Inr n
      \<longrightarrow> resolve_ref vg ref = Inr n) \<and>
   (\<not> dict_contains (versions_json vg) ref \<and> \<not> dict_contains (branches_json vg) ref \<and>
    dict_get (tags_json vg) ref = Inr n
      \<longrightarrow> resolve_ref vg ref = Inr n) \<and>
   (dict_contains (versions_json vg) ref \<and> dict_contains (branches_json vg) ref
      \<longrightarrow> resolve_ref vg ref = Inr ref)"
proof -
  have v: "resolve_ref vg ref = Inr ref" if "dict_contains (versions_json vg) ref"
    using that by (simp add: resolve_ref_def versions_contains)
  have b: "resolve_ref vg ref = Inr n"
    if "\<not> dict_contains (versions_json vg) ref" "dict_get (branches_json vg) ref = Inr n"
  proof -
    from that(2) have "dict_contains (branches_json vg) ref"
      by (auto simp: dict_contains_ex_get)
    with that show ?thesis by (simp add: resolve_ref_def versions_contains)
  qed
  have t: "resolve_ref vg ref = Inr n"
    if "\<not> dict_contains (versions_json vg) ref" "\<not> dict_contains (branches_json vg) ref"
       "dict_get (tags_json vg) ref = Inr n"
  proof -
    from that(3) have "dict_contains (tags_json vg) ref"
      by (auto simp: dict_contains_ex_get)
    with that show ?thesis by (simp add: resolve_ref_def versions_contains)
  qed
  from v b t show ?thesis by blast
qed

theorem resolve_ref_precedence_witness:
  "dict_contains (versions_json shadow_doc) ''A'' \<and>
   dict_contains (branches_json shadow_doc) ''A'' \<and>
   dict_get (branches_json shadow_doc) ''A'' = Inr ''B'' \<and>
   resolve_ref shadow_doc ''A'' = Inr ''A'' \<and>
   \<not> dict_contains (versions_json example_doc) ''main'' \<and>
   dict_get (branches_json example_doc) ''main'' = Inr ''B'' \<and>
   resolve_ref example_doc ''main'' = Inr ''B'' \<and>
   \<not> dict_contains (versions_json example_doc) ''v1'' \<and>
   \<not> dict_contains (branches_json example_doc) ''v1'' \<and>
   dict_get (tags_json example_doc) ''v1'' = Inr ''A'' \<and>
   resolve_ref example_doc ''v1'' = Inr ''A''"
  using resolve_ref_precedence [of shadow_doc "''A''" "''B''"]
        resolve_ref_precedence [of example_doc "''main''" "''B''"]
        resolve_ref_precedence [of example_doc "''v1''" "''A''"]
  by (simp add: shadow_doc_def example_doc_def dict_contains_def dict_get_def)

text \<open>
  Claim C4. A reference that is a key of none of versions, branches and tags makes
  \<^verbatim>\<open>resolve_ref\<close> raise \<^verbatim>\<open>IndexError\<close> (the spec's \<^verbatim>\<open>UnresolvedReferenceError\<close>); no
  version name is returned in its place.
\<close>

theorem resolve_ref_unresolved:
  assumes "\<not> dict_contains (versions_json vg) ref"
    and "\<not> dict_contains (branches_json vg) ref"
    and "\<not> dict_contains (tags_json vg) ref"
  shows "resolve_ref vg ref = Inl IndexError \<and> (\<forall>n. resolve_ref vg ref \<noteq> Inr n)"
  using assms by (simp add: resolve_ref_def versions_contains)

theorem resolve_ref_unresolved_witness:
  "\<not> dict_contains (versions_json example_doc) ''nope'' \<and>
   \<not> dict_contains (branches_json example_doc) ''nope'' \<and>
   \<not> dict_contains (tags_json example_doc) ''nope'' \<and>
   resolve_ref example_doc ''nope'' = Inl IndexError"
  using resolve_ref_unresolved [of example_doc "''nope''"]
  by (simp add: example_doc_def dict_contains_def)

text \<open>
  Claim C2 does not hold of the program: \<^verbatim>\<open>resolve_ref\<close> never looks a target up.
  In \<open>ghost_doc\<close> the branch \<^verbatim>\<open>ghost\<close> points at \<^verbatim>\<open>Z\<close>, no version is named \<^verbatim>\<open>Z\<close>,
  and \<^verbatim>\<open>resolve_ref\<close> returns \<^verbatim>\<open>"Z"\<close> where the claim has it raise.
\<close>

theorem resolve_ref_dangling_counterexample:
  "dict_get (branches_json ghost_doc) ''ghost'' = Inr ''Z'' \<and>
   \<not> dict_contains (versions ghost_doc) ''Z'' \<and>
   resolve_ref ghost_doc ''ghost'' = Inr ''Z'' \<and>
   resolve_ref ghost_doc ''ghost'' \<noteq> Inl KeyError"
  by (simp add: ghost_doc_def resolve_ref_def versions_def dict_contains_def dict_get_def)

text \<open>
  Claim C2, amended. For a branch whose name is no version name and whose target is
  absent from versions, \<^verbatim>\<open>resolve_ref\<close> returns the target without raising; the dangling
  target is detected by the lookup of \<^verbatim>\<open>get_version_from_ref\<close>, which raises
  \<^verbatim>\<open>KeyError\<close> (the spec's \<^verbatim>\<open>DanglingReferenceError\<close>), an error other than the
  \<^verbatim>\<open>IndexError\<close> of an unresolved reference.
\<close>

theorem resolve_ref_dangling_branch:
  assumes "dict_get (branches_json vg) b = Inr n"
    and "\<not> dict_contains (versions_json vg) b"
    and "\<not> dict_contains (versions_json vg) n"
  shows "resolve_ref vg b = Inr n \<and> get_version_from_ref vg b = Inl KeyError \<and>
         KeyError \<noteq> IndexError"
proof -
  from assms(1) have "dict_contains (branches_json vg) b"
    by (auto simp: dict_contains_ex_get)
  with assms have r: "resolve_ref vg b = Inr n"
    by (simp add: resolve_ref_def versions_contains)
  from assms(3) have "dict_get (versions vg) n = Inl KeyError"
    by (simp add: dict_get_KeyError_iff versions_contains)
  with r show ?thesis by (simp add: get_version_from_ref_def)
qed

theorem resolve_ref_dangling_branch_witness:
  "dict_get (branches_json ghost_doc) ''ghost'' = Inr ''Z'' \<and>
   \<not> dict_contains (versions_json ghost_doc) ''ghost'' \<and>
   \<not> dict_contains (versions_json ghost_doc) ''Z'' \<and>
   resolve_ref ghost_doc ''ghost'' = Inr ''Z'' \<and>
   get_version_from_ref ghost_doc ''ghost'' = Inl KeyError"
  using resolve_ref_dangling_branch [of ghost_doc "''ghost''" "''Z''"]
  by (simp add: ghost_doc_def dict_contains_def dict_get_def)

text \<open>
  Claim C3. \<^verbatim>\<open>get_version_from_ref\<close> is \<^verbatim>\<open>versions[resolve_ref(ref)]\<close>: when resolution
  fails it fails with the same error (which is \<^verbatim>\<open>IndexError\<close>); when resolution gives a
  name that is a key of versions it returns the \<^verbatim>\<open>Version\<close> of that name, whose data is
  stored under that name; when resolution gives a name that is absent from versions it
  raises \<^verbatim>\<open>KeyError\<close>, which is not the error of an unresolved reference.
\<close>

theorem get_version_from_ref_composition:
  "get_version_from_ref vg ref =
     (case resolve_ref vg ref of Inl e \<Rightarrow> Inl e | Inr n \<Rightarrow> dict_get (versions vg) n) \<and>
   (resolve_ref vg ref = Inl e \<longrightarrow> get_version_from_ref vg ref = Inl e \<and> e = IndexError) \<and>
   (resolve_ref vg ref = Inr n \<and> dict_contains (versions_json vg) n \<longrightarrow>
      (\<exists>v. get_version_from_ref vg ref = Inr v \<and> name v = n \<and> versioning v = vg \<and>
           (n, vjson v) \<in> set (versions_json vg))) \<and>
   (resolve_ref vg ref = Inr n \<and> \<not> dict_contains (versions_json vg) n \<longrightarrow>
      get_version_from_ref vg ref = Inl KeyError) \<and>
   KeyError \<noteq> IndexError"
proof -
  have found: "\<exists>v. get_version_from_ref vg ref = Inr v \<and> name v = n \<and> versioning v = vg \<and>
           (n, vjson v) \<in> set (versions_json vg)"
    if r: "resolve_ref vg ref = Inr n" and c: "dict_contains (versions_json vg) n"
  proof -
    from c obtain v where g: "dict_get (versions vg) n = Inr v"
      using versions_contains [of vg n] by (auto simp: dict_contains_ex_get)
    from versions_get [OF g] g r show ?thesis
      by (simp add: get_version_from_ref_def name_def)
  qed
  have missing: "get_version_from_ref vg ref = Inl KeyError"
    if r: "resolve_ref vg ref = Inr n" and c: "\<not> dict_contains (versions_json vg) n"
  proof -
    from c have "dict_get (versions vg) n = Inl KeyError"
      by (simp add: dict_get_KeyError_iff versions_contains)
    with r show ?thesis by (simp add: get_version_from_ref_def)
  qed
  have failed: "get_version_from_ref vg ref = Inl e \<and> e = IndexError"
    if "resolve_ref vg ref = Inl e"
    using that resolve_ref_error [OF that] by (simp add: get_version_from_ref_def)
  have "get_version_from_ref vg ref =
     (case resolve_ref vg ref of Inl e \<Rightarrow> Inl e | Inr n \<Rightarrow> dict_get (versions vg) n)"
    by (simp add: get_version_from_ref_def)
  with found missing failed show ?thesis by blast
qed

theorem get_version_from_ref_composition_witness:
  "resolve_ref example_doc ''main'' = Inr ''B'' \<and>
   dict_contains (versions_json example_doc) ''B'' \<and>
   (\<exists>v. get_version_from_ref example_doc ''main'' = Inr v \<and> name v = ''B'' \<and>
        versioning v = example_doc \<and> (''B'', vjson v) \<in> set (versions_json example_doc)) \<and>
   resolve_ref ghost_doc ''ghost'' = Inr ''Z'' \<and>
   \<not> dict_contains (versions_json ghost_doc) ''Z'' \<and>
   get_version_from_ref ghost_doc ''ghost'' = Inl KeyError \<and>
   resolve_ref example_doc ''nope'' = Inl IndexError \<and>
   get_version_from_ref example_doc ''nope'' = Inl IndexError"
proof -
  have r1: "resolve_ref example_doc ''main'' = Inr ''B''"
    by (simp add: resolve_ref_def example_doc_def versions_def dict_contains_def dict_get_def)
  have c1: "dict_contains (versions_json example_doc) ''B''"
    by (simp add: example_doc_def dict_contains_def)
  have r2: "resolve_ref ghost_doc ''ghost'' = Inr ''Z''"
    by (simp add: resolve_ref_def ghost_doc_def versions_def dict_contains_def dict_get_def)
  have c2: "\<not> dict_contains (versions_json ghost_doc) ''Z''"
    by (simp add: ghost_doc_def dict_contains_def)
  have r3: "resolve_ref example_doc ''nope'' = Inl IndexError"
    by (simp add: resolve_ref_def example_doc_def versions_def dict_contains_def)
  from r1 c1 r2 c2 r3
    get_version_from_ref_composition [of example_doc "''main''" IndexError "''B''"]
    get_version_from_ref_composition [of ghost_doc "''ghost''" IndexError "''Z''"]
    get_version_from_ref_composition [of example_doc "''nope''" IndexError "''B''"]
  show ?thesis by blast
qed

text \<open>
  Claim C5 does not hold of the program for a name that an earlier namespace shadows.
  In \<open>shadow_doc\<close> every branch and tag points at a version; the branch \<^verbatim>\<open>A\<close> points
  at \<^verbatim>\<open>B\<close> and \<^verbatim>\<open>resolve_ref\<close> of \<^verbatim>\<open>"A"\<close> is the version name \<^verbatim>\<open>"A"\<close>; the tag
  \<^verbatim>\<open>B\<close> points at \<^verbatim>\<open>A\<close> and \<^verbatim>\<open>resolve_ref\<close> of \<^verbatim>\<open>"B"\<close> is \<^verbatim>\<open>"B"\<close>.
\<close>

theorem resolve_ref_branch_shadowed_counterexample:
  "dict_get (branches_json shadow_doc) ''A'' = Inr ''B'' \<and>
   dict_contains (versions shadow_doc) ''B'' \<and>
   dict_get (tags_json shadow_doc) ''B'' = Inr ''A'' \<and>
   dict_contains (versions shadow_doc) ''A'' \<and>
   resolve_ref shadow_doc ''A'' = Inr ''A'' \<and>
   resolve_ref shadow_doc ''A'' \<noteq> Inr ''B'' \<and>
   resolve_ref shadow_doc ''B'' = Inr ''B'' \<and>
   resolve_ref shadow_doc ''B'' \<noteq> Inr ''A''"
  by (simp add: shadow_doc_def resolve_ref_def versions_def dict_contains_def dict_get_def)

text \<open>
  Claim C5, amended. For every branch \<open>b\<close> with target \<open>n\<close> whose name is no version
  name, \<^verbatim>\<open>resolve_ref\<close> of \<open>b\<close> is \<open>n\<close>; for every tag \<open>t\<close> with target \<open>m\<close> whose name
  is neither a version name nor a branch name, \<^verbatim>\<open>resolve_ref\<close> of \<open>t\<close> is \<open>m\<close>.
\<close>

theorem resolve_ref_branch_tag_target:
  "(dict_get (branches_json vg) b = Inr n \<and> \<not> dict_contains (versions_json vg) b
      \<longrightarrow> resolve_ref vg b = Inr n) \<and>
   (dict_get (tags_json vg) t = Inr m \<and> \<not> dict_contains (versions_json vg) t \<and>
    \<not> dict_contains (branches_json vg) t
      \<longrightarrow> resolve_ref vg t = Inr m)"
proof -
  have b: "resolve_ref vg b = Inr n"
    if "dict_get (branches_json vg) b = Inr n" "\<not> dict_contains (versions_json vg) b"
  proof -
    from that(1) have "dict_contains (branches_json vg) b"
      by (auto simp: dict_contains_ex_get)
    with that show ?thesis by (simp add: resolve_ref_def versions_contains)
  qed
  have t: "resolve_ref vg t = Inr m"
    if "dict_get (tags_json vg) t = Inr m" "\<not> dict_contains (versions_json vg) t"
       "\<not> dict_contains (branches_json vg) t"
  proof -
    from that(1) have "dict_contains (tags_json vg) t"
      by (auto simp: dict_contains_ex_get)
    with that show ?thesis by (simp add: resolve_ref_def versions_contains)
  qed
  from b t show ?thesis by blast
qed

theorem resolve_ref_branch_tag_target_witness:
  "dict_get (branches_json example_doc) ''main'' = Inr ''B'' \<and>
   \<not> dict_contains (versions_json example_doc) ''main'' \<and>
   resolve_ref example_doc ''main'' = Inr ''B'' \<and>
   dict_get (tags_json example_doc) ''v1'' = Inr ''A'' \<and>
   \<not> dict_contains (versions_json example_doc) ''v1'' \<and>
   \<not> dict_contains (branches_json example_doc) ''v1'' \<and>
   resolve_ref example_doc ''v1'' = Inr ''A''"
  using resolve_ref_branch_tag_target [of example_doc "''main''" "''B''" "''v1''" "''A''"]
  by (simp add: example_doc_def dict_contains_def dict_get_def)

section \<open>Parents of a version\<close>

lemma Version_init_named:
  "Version_init get_hash_of_object h vg j (Some k) =
     \<lparr>versioning = vg, vjson = j, version_name = k\<rparr>"
  by (simp add: Version_init_def)

text \<open>
  Claim C6: \<^verbatim>\<open>has_parents()\<close> is true exactly for a version whose data declares a
  non-empty list of parents. The program tests the presence of the key \<^verbatim>\<open>"parents"\<close>:
  for version \<^verbatim>\<open>A\<close> of \<open>example_doc\<close>, whose data stores \<^verbatim>\<open>"parents": []\<close>,
  \<^verbatim>\<open>has_parents()\<close> is true although \<^verbatim>\<open>parents\<close> is the empty list. The theorem
  evaluates the program at this version.
\<close>

theorem has_parents_empty_list:
  "get_version_from_ref example_doc ''A'' =
     Inr \<lparr>versioning = example_doc, vjson = 0, version_name = ''A''\<rparr> \<and>
   dict_get (example_store 0) ''parents'' = Inr (JArr []) \<and>
   has_parents example_store \<lparr>versioning = example_doc, vjson = 0, version_name = ''A''\<rparr> \<and>
   parents example_store \<lparr>versioning = example_doc, vjson = 0, version_name = ''A''\<rparr> = Inr []"
  by (simp add: get_version_from_ref_def resolve_ref_def versions_def example_doc_def
      example_store_def has_parents_def parents_def dict_contains_def dict_get_def)

text \<open>
  Claim C10. For a version whose data has no \<^verbatim>\<open>"parents"\<close> entry, \<^verbatim>\<open>has_parents()\<close> is
  false and \<^verbatim>\<open>parents\<close> returns the empty list without an error; whenever
  \<^verbatim>\<open>has_parents()\<close> is false, \<^verbatim>\<open>parents\<close> is the empty list.
\<close>

theorem parents_of_root:
  "(\<not> dict_contains (h (vjson ver)) ''parents'' \<longrightarrow>
      \<not> has_parents h ver \<and> parents h ver = Inr []) \<and>
   (\<not> has_parents h ver \<longrightarrow> parents h ver = Inr [])"
  by (simp add: has_parents_def parents_def)

theorem parents_of_root_witness:
  "\<not> dict_contains (example_store (vjson \<lparr>versioning = example_doc, vjson = 2, version_name = ''R''\<rparr>))
       ''parents'' \<and>
   \<not> has_parents example_store \<lparr>versioning = example_doc, vjson = 2, version_name = ''R''\<rparr> \<and>
   parents example_store \<lparr>versioning = example_doc, vjson = 2, version_name = ''R''\<rparr> = Inr []"
  using parents_of_root [of example_store "\<lparr>versioning = example_doc, vjson = 2, version_name = ''R''\<rparr>"]
  by (simp add: example_store_def dict_contains_def)

lemma name_eq: "name = version_name"
  by (rule ext) (simp add: name_def)

lemma parents_loop_found:
  assumes "\<forall>p\<in>set ps. dict_contains (versions_json vg) p"
  shows "\<exists>vs. parents_loop (versions vg) (map JStr ps) = Inr vs \<and> map name vs = ps \<and>
           (\<forall>v\<in>set vs. versioning v = vg \<and> (name v, vjson v) \<in> set (versions_json vg))"
  using assms
proof (induction ps)
  case Nil
  show ?case by simp
next
  case (Cons p ps)
  from Cons.prems have "dict_contains (versions vg) p"
    by (simp add: versions_contains)
  then obtain v where g: "dict_get (versions vg) p = Inr v"
    by (auto simp: dict_contains_ex_get)
  from Cons obtain vs where vs: "parents_loop (versions vg) (map JStr ps) = Inr vs"
    "map name vs = ps"
    "\<forall>v\<in>set vs. versioning v = vg \<and> (name v, vjson v) \<in> set (versions_json vg)"
    by auto
  from versions_get [OF g] g vs show ?case
    by (simp add: name_eq)
qed

lemma parents_loop_missing:
  assumes "\<exists>p\<in>set ps. \<not> dict_contains (versions_json vg) p"
  shows "parents_loop (versions vg) (map JStr ps) = Inl KeyError"
  using assms
proof (induction ps)
  case Nil
  then show ?case by simp
next
  case (Cons p ps)
  show ?case
  proof (cases "dict_contains (versions_json vg) p")
    case True
    then have "dict_contains (versions vg) p" by (simp add: versions_contains)
    then obtain v where g: "dict_get (versions vg) p = Inr v"
      by (auto simp: dict_contains_ex_get)
    from True Cons.prems have "\<exists>p\<in>set ps. \<not> dict_contains (versions_json vg) p" by auto
    with Cons.IH g show ?thesis by simp
  next
    case False
    then have "dict_get (versions vg) p = Inl KeyError"
      by (simp add: dict_get_KeyError_iff versions_contains)
    then show ?thesis by simp
  qed
qed

lemma parents_stored_list:
  assumes "dict_get (h (vjson ver)) ''parents'' = Inr (JArr (map JStr ps))"
  shows "parents h ver = parents_loop (versions (versioning ver)) (map JStr ps)"
proof -
  from assms have "has_parents h ver"
    by (auto simp: has_parents_def dict_contains_ex_get)
  with assms show ?thesis by (simp add: parents_def)
qed

text \<open>
  Claim C7. For a version that stores the list \<open>ps\<close> of parent names, \<^verbatim>\<open>parents\<close> looks
  each name up in \<^verbatim>\<open>versions\<close>: when every name is a key of versions it returns the
  versions of these names in the stored order, each with data stored under its name; it
  fails exactly when some name is absent from versions, and then with \<^verbatim>\<open>KeyError\<close> (the
  spec's \<^verbatim>\<open>DanglingReferenceError\<close>), also when the absent name is a branch name; the
  names it returns and its failure do not depend on the branches and tags.
\<close>

theorem parents_literal_lookup:
  assumes "dict_get (h (vjson ver)) ''parents'' = Inr (JArr (map JStr ps))"
  shows "((\<forall>p\<in>set ps. dict_contains (versions_json (versioning ver)) p) \<longrightarrow>
           (\<exists>vs. parents h ver = Inr vs \<and> map name vs = ps \<and>
              (\<forall>v\<in>set vs. versioning v = versioning ver \<and>
                 (name v, vjson v) \<in> set (versions_json (versioning ver))))) \<and>
         ((\<exists>e. parents h ver = Inl e) \<longleftrightarrow>
            (\<exists>p\<in>set ps. \<not> dict_contains (versions_json (versioning ver)) p)) \<and>
         ((\<exists>p\<in>set ps. \<not> dict_contains (versions_json (versioning ver)) p) \<longrightarrow>
            parents h ver = Inl KeyError) \<and>
         (\<forall>p\<in>set ps. \<not> dict_contains (versions_json (versioning ver)) p \<and>
              dict_contains (branches_json (versioning ver)) p \<longrightarrow>
            parents h ver = Inl KeyError) \<and>
         (\<forall>bs ts. map_sum id (map name)
              (parents h (ver\<lparr>versioning := (versioning ver)\<lparr>branches_json := bs, tags_json := ts\<rparr>\<rparr>))
            = map_sum id (map name) (parents h ver))"
proof -
  let ?vg = "versioning ver"
  let ?all = "\<forall>p\<in>set ps. dict_contains (versions_json ?vg) p"
  have eq: "parents h ver = parents_loop (versions ?vg) (map JStr ps)"
    using assms by (rule parents_stored_list)
  have found: "\<exists>vs. parents h ver = Inr vs \<and> map name vs = ps \<and>
      (\<forall>v\<in>set vs. versioning v = ?vg \<and> (name v, vjson v) \<in> set (versions_json ?vg))"
    if ?all
    using parents_loop_found [OF that] eq by simp
  have missing: "parents h ver = Inl KeyError" if "\<not> ?all"
    using parents_loop_missing [of ps ?vg] that eq by simp
  have names: "map_sum id (map name) (parents h ver) = (if ?all then Inr ps else Inl KeyError)"
  proof (cases ?all)
    case True
    from found [OF True] True show ?thesis by auto
  next
    case False
    from missing [OF False] False show ?thesis by simp
  qed
  have indep: "map_sum id (map name)
              (parents h (ver\<lparr>versioning := ?vg\<lparr>branches_json := bs, tags_json := ts\<rparr>\<rparr>))
            = map_sum id (map name) (parents h ver)" for bs ts
  proof -
    let ?ver' = "ver\<lparr>versioning := ?vg\<lparr>branches_json := bs, tags_json := ts\<rparr>\<rparr>"
    let ?all' = "\<forall>p\<in>set ps. dict_contains (versions_json (versioning ?ver')) p"
    have a: "dict_get (h (vjson ?ver')) ''parents'' = Inr (JArr (map JStr ps))"
      using assms by simp
    have all': "?all' = ?all" by simp
    have "map_sum id (map name) (parents h ?ver') = (if ?all' then Inr ps else Inl KeyError)"
    proof (cases ?all')
      case True
      from parents_loop_found [OF True] parents_stored_list [of h ?ver' ps] a True
      show ?thesis by auto
    next
      case False
      then have "\<exists>p\<in>set ps. \<not> dict_contains (versions_json (versioning ?ver')) p" by blast
      from parents_loop_missing [OF this] parents_stored_list [of h ?ver' ps] a False
      show ?thesis by simp
    qed
    with names all' show ?thesis by simp
  qed
  have c1: "?all \<longrightarrow> (\<exists>vs. parents h ver = Inr vs \<and> map name vs = ps \<and>
      (\<forall>v\<in>set vs. versioning v = ?vg \<and> (name v, vjson v) \<in> set (versions_json ?vg)))"
    using found by blast
  have c2: "(\<exists>e. parents h ver = Inl e) \<longleftrightarrow>
      (\<exists>p\<in>set ps. \<not> dict_contains (versions_json ?vg) p)"
  proof (cases ?all)
    case True
    from found [OF True] True show ?thesis by auto
  next
    case False
    from missing [OF False] False show ?thesis by auto
  qed
  have c3: "(\<exists>p\<in>set ps. \<not> dict_contains (versions_json ?vg) p) \<longrightarrow>
      parents h ver = Inl KeyError"
    using missing by blast
  have c4: "\<forall>p\<in>set ps. \<not> dict_contains (versions_json ?vg) p \<and>
      dict_contains (branches_json ?vg) p \<longrightarrow> parents h ver = Inl KeyError"
    using missing by blast
  have c5: "\<forall>bs ts. map_sum id (map name)
              (parents h (ver\<lparr>versioning := ?vg\<lparr>branches_json := bs, tags_json := ts\<rparr>\<rparr>))
            = map_sum id (map name) (parents h ver)"
    using indep by blast
  from c1 c2 c3 c4 c5 show ?thesis by (intro conjI)
qed

theorem parents_literal_lookup_witness:
  "dict_get (example_store (vjson \<lparr>versioning = example_doc, vjson = 1, version_name = ''B''\<rparr>))
       ''parents'' = Inr (JArr (map JStr [''A''])) \<and>
   dict_contains (versions_json example_doc) ''A'' \<and>
   (\<exists>vs. parents example_store \<lparr>versioning = example_doc, vjson = 1, version_name = ''B''\<rparr> = Inr vs \<and>
      map name vs = [''A'']) \<and>
   dict_get (alias_store (vjson \<lparr>versioning = alias_doc, vjson = 3, version_name = ''C''\<rparr>))
       ''parents'' = Inr (JArr (map JStr [''main''])) \<and>
   \<not> dict_contains (versions_json alias_doc) ''main'' \<and>
   dict_contains (branches_json alias_doc) ''main'' \<and>
   parents alias_store \<lparr>versioning = alias_doc, vjson = 3, version_name = ''C''\<rparr> = Inl KeyError"
proof -
  let ?B = "\<lparr>versioning = example_doc, vjson = 1, version_name = ''B''\<rparr>"
  let ?C = "\<lparr>versioning = alias_doc, vjson = 3, version_name = ''C''\<rparr>"
  have b: "dict_get (example_store (vjson ?B)) ''parents'' = Inr (JArr (map JStr [''A'']))"
    by (simp add: example_store_def dict_get_def)
  have c: "dict_get (alias_store (vjson ?C)) ''parents'' = Inr (JArr (map JStr [''main'']))"
    by (simp add: alias_store_def dict_get_def)
  have vb: "dict_contains (versions_json example_doc) ''A''"
    by (simp add: example_doc_def dict_contains_def)
  have vc: "\<not> dict_contains (versions_json alias_doc) ''main'' \<and>
      dict_contains (branches_json alias_doc) ''main''"
    by (simp add: alias_doc_def dict_contains_def)
  from parents_literal_lookup [of example_store ?B "[''A'']", OF b] vb
  have "\<exists>vs. parents example_store ?B = Inr vs \<and> map name vs = [''A'']"
    by auto
  moreover from parents_literal_lookup [of alias_store ?C "[''main'']", OF c] vc
  have "parents alias_store ?C = Inl KeyError"
    by simp
  ultimately show ?thesis using b c vb vc by blast
qed

text \<open>
  Claim C8. Assigning \<^verbatim>\<open>message\<close> replaces the message in the stored data of the
  version, in place: every \<^verbatim>\<open>Version\<close> object that refers to the same data reads the new
  message, and no other data changes. The \<^verbatim>\<open>Version\<close> object and its name, its author,
  its date, \<^verbatim>\<open>has_parents()\<close>, the stored parents and the result of \<^verbatim>\<open>parents\<close> are the
  same before and after, as is every entry of the data other than \<^verbatim>\<open>"message"\<close>.
\<close>

theorem message_setter_frame:
  assumes "message_setter h ver v = (h', ver')"
  shows "ver' = ver \<and> name ver' = name ver \<and>
         message h' ver' = Inr v \<and>
         author h' ver' = author h ver \<and>
         date h' ver' = date h ver \<and>
         has_parents h' ver' = has_parents h ver \<and>
         dict_get (h' (vjson ver')) ''parents'' = dict_get (h (vjson ver)) ''parents'' \<and>
         parents h' ver' = parents h ver \<and>
         (\<forall>k. k \<noteq> ''message'' \<longrightarrow>
            dict_get (h' (vjson ver')) k = dict_get (h (vjson ver)) k \<and>
            dict_contains (h' (vjson ver')) k = dict_contains (h (vjson ver)) k) \<and>
         h' (vjson ver) = dict_set (h (vjson ver)) ''message'' v \<and>
         (\<forall>other. vjson other = vjson ver \<longrightarrow> message h' other = Inr v) \<and>
         (\<forall>a. a \<noteq> vjson ver \<longrightarrow> h' a = h a)"
proof -
  from assms have v: "ver' = ver"
    and h': "h' = h(vjson ver := dict_set (h (vjson ver)) ''message'' v)"
    by (auto simp: message_setter_def)
  have get: "dict_get (h' (vjson ver)) k = dict_get (h (vjson ver)) k" if "k \<noteq> ''message''" for k
    using that by (simp add: h' dict_get_dict_set)
  have con: "dict_contains (h' (vjson ver)) k = dict_contains (h (vjson ver)) k"
    if "k \<noteq> ''message''" for k
    using that by (simp add: h' dict_contains_dict_set)
  have m: "message h' other = Inr v" if "vjson other = vjson ver" for other
    using that by (simp add: message_def h' dict_get_dict_set)
  have a: "author h' ver = author h ver" by (simp add: author_def get)
  have d: "date h' ver = date h ver" by (simp add: date_def get)
  have hp: "has_parents h' ver = has_parents h ver" by (simp add: has_parents_def con)
  have sp: "dict_get (h' (vjson ver)) ''parents'' = dict_get (h (vjson ver)) ''parents''"
    by (simp add: get)
  have ps: "parents h' ver = parents h ver" by (simp add: parents_def hp sp)
  have fr: "h' a = h a" if "a \<noteq> vjson ver" for a
    using that by (simp add: h')
  have ip: "h' (vjson ver) = dict_set (h (vjson ver)) ''message'' v"
    by (simp add: h')
  from get con m [of ver] m a d hp sp ps fr ip show ?thesis unfolding v by simp
qed

theorem message_setter_frame_witness:
  "(\<exists>h'. message_setter example_store
            \<lparr>versioning = example_doc, vjson = 1, version_name = ''B''\<rparr> (JStr ''amended'')
          = (h', \<lparr>versioning = example_doc, vjson = 1, version_name = ''B''\<rparr>) \<and>
      message h' \<lparr>versioning = example_doc, vjson = 1, version_name = ''B''\<rparr> = Inr (JStr ''amended'') \<and>
      author h' \<lparr>versioning = example_doc, vjson = 1, version_name = ''B''\<rparr> = Inr (JStr ''bob'') \<and>
      h' 0 = example_store 0)"
proof -
  let ?B = "\<lparr>versioning = example_doc, vjson = 1, version_name = ''B''\<rparr>"
  obtain h' where s: "message_setter example_store ?B (JStr ''amended'') = (h', ?B)"
    by (simp add: message_setter_def)
  have a: "author example_store ?B = Inr (JStr ''bob'')"
    by (simp add: author_def example_store_def dict_get_def)
  from message_setter_frame [OF s] a
  have "message h' ?B = Inr (JStr ''amended'') \<and> author h' ?B = Inr (JStr ''bob'') \<and>
      h' 0 = example_store 0"
    by simp
  with s show ?thesis by blast
qed

section \<open>Branches and tags of a version\<close>

text \<open>
  The comprehension behind \<^verbatim>\<open>Versioning.branches\<close> and \<^verbatim>\<open>Versioning.tags\<close> looks every
  target up: one missing target makes it raise, and with no missing target it returns.
\<close>

lemma deref_items_dangling:
  assumes "\<exists>kj\<in>set kjs. \<not> dict_contains vs (snd kj)"
  shows "deref_items vs kjs acc = Inl KeyError"
  using assms
proof (induction kjs arbitrary: acc)
  case Nil
  then show ?case by simp
next
  case (Cons kj kjs)
  obtain k j where kj: "kj = (k, j)" by (cases kj)
  show ?case
  proof (cases "dict_contains vs j")
    case True
    then obtain v where g: "dict_get vs j = Inr v" by (auto simp: dict_contains_ex_get)
    from True Cons.prems kj have "\<exists>kj\<in>set kjs. \<not> dict_contains vs (snd kj)" by auto
    from Cons.IH [OF this] g show ?thesis by (simp add: kj)
  next
    case False
    then have "dict_get vs j = Inl KeyError" by (simp add: dict_get_KeyError_iff)
    then show ?thesis by (simp add: kj)
  qed
qed

lemma deref_items_total:
  assumes "\<forall>kj\<in>set kjs. dict_contains vs (snd kj)"
  shows "\<exists>r. deref_items vs kjs acc = Inr r"
  using assms
proof (induction kjs arbitrary: acc)
  case Nil
  show ?case by simp
next
  case (Cons kj kjs)
  obtain k j where kj: "kj = (k, j)" by (cases kj)
  from Cons.prems kj obtain v where g: "dict_get vs j = Inr v"
    by (auto simp: dict_contains_ex_get)
  from Cons.prems have "\<forall>kj\<in>set kjs. dict_contains vs (snd kj)" by simp
  from Cons.IH [OF this] g show ?case by (simp add: kj)
qed

text \<open>
  Claim C9. In a document with a branch (a tag) whose target is absent from versions,
  \<^verbatim>\<open>Versioning.branches\<close> (\<^verbatim>\<open>tags\<close>) raises \<^verbatim>\<open>KeyError\<close>, and so does the list
  \<^verbatim>\<open>branches\<close> (\<^verbatim>\<open>tags\<close>) of every \<^verbatim>\<open>Version\<close> of that document, whatever the version;
  the four views return exactly on the documents whose branch (tag) targets are all keys
  of versions.
\<close>

theorem dangling_target_breaks_views:
  "((\<exists>kj\<in>set (branches_json vg). \<not> dict_contains (versions_json vg) (snd kj)) \<longrightarrow>
      branches vg = Inl KeyError \<and>
      (\<forall>ver. versioning ver = vg \<longrightarrow> version_branches ver = Inl KeyError)) \<and>
   ((\<exists>kj\<in>set (tags_json vg). \<not> dict_contains (versions_json vg) (snd kj)) \<longrightarrow>
      tags vg = Inl KeyError \<and>
      (\<forall>ver. versioning ver = vg \<longrightarrow> version_tags ver = Inl KeyError)) \<and>
   ((\<exists>bs. branches vg = Inr bs) \<longleftrightarrow>
      (\<forall>kj\<in>set (branches_json vg). dict_contains (versions_json vg) (snd kj))) \<and>
   ((\<exists>ts. tags vg = Inr ts) \<longleftrightarrow>
      (\<forall>kj\<in>set (tags_json vg). dict_contains (versions_json vg) (snd kj))) \<and>
   (\<forall>ver. versioning ver = vg \<longrightarrow>
      ((\<exists>ns. version_branches ver = Inr ns) \<longleftrightarrow>
         (\<forall>kj\<in>set (branches_json vg). dict_contains (versions_json vg) (snd kj))) \<and>
      ((\<exists>ns. version_tags ver = Inr ns) \<longleftrightarrow>
         (\<forall>kj\<in>set (tags_json vg). dict_contains (versions_json vg) (snd kj))))"
proof -
  let ?okb = "\<forall>kj\<in>set (branches_json vg). dict_contains (versions_json vg) (snd kj)"
  let ?okt = "\<forall>kj\<in>set (tags_json vg). dict_contains (versions_json vg) (snd kj)"
  have bf: "branches vg = Inl KeyError" if "\<not> ?okb"
    using that deref_items_dangling [of "branches_json vg" "versions vg" "[]"]
    by (simp add: branches_def versions_contains)
  have tf: "tags vg = Inl KeyError" if "\<not> ?okt"
    using that deref_items_dangling [of "tags_json vg" "versions vg" "[]"]
    by (simp add: tags_def versions_contains)
  have bt: "\<exists>bs. branches vg = Inr bs" if ?okb
    using that deref_items_total [of "branches_json vg" "versions vg" "[]"]
    by (simp add: branches_def versions_contains)
  have tt: "\<exists>ts. tags vg = Inr ts" if ?okt
    using that deref_items_total [of "tags_json vg" "versions vg" "[]"]
    by (simp add: tags_def versions_contains)
  have vbf: "version_branches ver = Inl KeyError" if "\<not> ?okb" "versioning ver = vg" for ver
    using bf [OF that(1)] that(2) by (simp add: version_branches_def)
  have vtf: "version_tags ver = Inl KeyError" if "\<not> ?okt" "versioning ver = vg" for ver
    using tf [OF that(1)] that(2) by (simp add: version_tags_def)
  have vbt: "\<exists>ns. version_branches ver = Inr ns" if ?okb "versioning ver = vg" for ver
    using bt [OF that(1)] that(2) by (auto simp: version_branches_def)
  have vtt: "\<exists>ns. version_tags ver = Inr ns" if ?okt "versioning ver = vg" for ver
    using tt [OF that(1)] that(2) by (auto simp: version_tags_def)
  have c1: "(\<not> ?okb) \<longrightarrow> branches vg = Inl KeyError \<and>
      (\<forall>ver. versioning ver = vg \<longrightarrow> version_branches ver = Inl KeyError)"
    using bf vbf by blast
  have c2: "(\<not> ?okt) \<longrightarrow> tags vg = Inl KeyError \<and>
      (\<forall>ver. versioning ver = vg \<longrightarrow> version_tags ver = Inl KeyError)"
    using tf vtf by blast
  have c3: "(\<exists>bs. branches vg = Inr bs) \<longleftrightarrow> ?okb"
    using bf bt by (cases ?okb) auto
  have c4: "(\<exists>ts. tags vg = Inr ts) \<longleftrightarrow> ?okt"
    using tf tt by (cases ?okt) auto
  have c5: "\<forall>ver. versioning ver = vg \<longrightarrow>
      ((\<exists>ns. version_branches ver = Inr ns) \<longleftrightarrow> ?okb) \<and>
      ((\<exists>ns. version_tags ver = Inr ns) \<longleftrightarrow> ?okt)"
  proof (intro allI impI conjI)
    fix ver :: Version
    assume v: "versioning ver = vg"
    show "(\<exists>ns. version_branches ver = Inr ns) \<longleftrightarrow> ?okb"
      using vbf [OF _ v] vbt [OF _ v] by (cases ?okb) auto
    show "(\<exists>ns. version_tags ver = Inr ns) \<longleftrightarrow> ?okt"
      using vtf [OF _ v] vtt [OF _ v] by (cases ?okt) auto
  qed
  from c1 c2 c3 c4 c5 show ?thesis by simp
qed

theorem dangling_target_breaks_views_witness:
  "(\<exists>kj\<in>set (branches_json ghost_doc). \<not> dict_contains (versions_json ghost_doc) (snd kj)) \<and>
   branches ghost_doc = Inl KeyError \<and>
   version_branches \<lparr>versioning = ghost_doc, vjson = 0, version_name = ''A''\<rparr> = Inl KeyError \<and>
   (\<exists>kj\<in>set (tags_json alias_doc). \<not> dict_contains (versions_json alias_doc) (snd kj)) \<and>
   tags alias_doc = Inl KeyError \<and>
   version_tags \<lparr>versioning = alias_doc, vjson = 0, version_name = ''A''\<rparr> = Inl KeyError \<and>
   branches_json example_doc = [(''main'', ''B'')] \<and>
   dict_contains (versions_json example_doc) ''B'' \<and>
   (\<exists>bs. branches example_doc = Inr bs)"
proof -
  have g: "\<exists>kj\<in>set (branches_json ghost_doc). \<not> dict_contains (versions_json ghost_doc) (snd kj)"
    by (simp add: ghost_doc_def dict_contains_def)
  have a: "\<exists>kj\<in>set (tags_json alias_doc). \<not> dict_contains (versions_json alias_doc) (snd kj)"
    by (simp add: alias_doc_def dict_contains_def)
  have e: "branches_json example_doc = [(''main'', ''B'')] \<and>
      dict_contains (versions_json example_doc) ''B''"
    by (simp add: example_doc_def dict_contains_def)
  from g a e dangling_target_breaks_views [of ghost_doc]
    dangling_target_breaks_views [of alias_doc]
    dangling_target_breaks_views [of example_doc]
  show ?thesis by simp
qed

end
